theory Spec2Isabelle
  imports Main
begin

section \<open>blugnu/capture: capturing stdout and stderr of a function\<close>

text \<open>
  The development follows \<^verbatim>\<open>capture.go\<close>.  Go strings are byte sequences and are
  modelled as \<^typ>\<open>string\<close>; a slice of strings that may be \<^verbatim>\<open>nil\<close> is a
  \<^typ>\<open>string list option\<close> with \<^term>\<open>None\<close> for \<^verbatim>\<open>nil\<close>, so that a
  \<^verbatim>\<open>nil\<close> slice and an empty, non-nil slice are different values.
\<close>

subsection \<open>Line splitting\<close>

text \<open>The separator \<^verbatim>\<open>"\n"\<close> of the call \<^verbatim>\<open>strings.Split(s, "\n")\<close>.\<close>

definition nl :: char where
  "nl = CHR 0x0A"

text \<open>
  \<^verbatim>\<open>strings.Split\<close> for a separator of one byte, as the loop of the library's
  \<^verbatim>\<open>genSplit\<close> runs: while the separator occurs, cut the text before its first
  occurrence (\<^verbatim>\<open>a[i] = s[:m]\<close>) and continue behind it (\<^verbatim>\<open>s = s[m+len(sep):]\<close>);
  the rest is the last element.
\<close>

function Split :: "string \<Rightarrow> char \<Rightarrow> string list" where
  "Split s sep =
     (if sep \<in> set s
      then takeWhile (\<lambda>c. c \<noteq> sep) s # Split (tl (dropWhile (\<lambda>c. c \<noteq> sep) s)) sep
      else [s])"
  by pat_completeness auto
termination
proof (relation "measure (\<lambda>(s, sep). length s)")
  show "wf (measure (\<lambda>(s, sep). length s))" by simp
next
  fix s :: string and sep :: char
  assume mem: "sep \<in> set s"
  then have ne: "dropWhile (\<lambda>c. c \<noteq> sep) s \<noteq> []" by simp
  have "length (dropWhile (\<lambda>c. c \<noteq> sep) s) \<le> length s"
    by (rule length_dropWhile_le)
  with ne have "length (tl (dropWhile (\<lambda>c. c \<noteq> sep) s)) < length s"
    by (cases "dropWhile (\<lambda>c. c \<noteq> sep) s") auto
  then show "((tl (dropWhile (\<lambda>c. c \<noteq> sep) s), sep), (s, sep)) \<in> measure (\<lambda>(s, sep). length s)"
    by simp
qed

declare Split.simps [simp del]

text \<open>
  The closure \<^verbatim>\<open>strings\<close> of \<^verbatim>\<open>Output\<close> (lines 79 to 87).  The guard makes every
  index in range: \<^verbatim>\<open>l[0]\<close> is read only when \<^verbatim>\<open>len(l) == 1\<close>, and
  \<^verbatim>\<open>l[len(l)-1:][0]\<close> only when \<^verbatim>\<open>l\<close> has an element.
\<close>

definition strings :: "string \<Rightarrow> string list option" where
  "strings s =
     (let l = Split s nl in
      if length l > 1 \<or> (length l = 1 \<and> l ! 0 \<noteq> []) then
        (let l' = (if drop (length l - 1) l ! 0 = [] then take (length l - 1) l else l)
         in Some l')
      else None)"

text \<open>
  \<^verbatim>\<open>strings.Join\<close> with a separator of one byte: what the spec means by the text
  being made of segments separated by the line terminator.
\<close>

fun Join :: "string list \<Rightarrow> char \<Rightarrow> string" where
  "Join [] sep = []"
| "Join [x] sep = x"
| "Join (x # y # ys) sep = x @ sep # Join (y # ys) sep"

subsection \<open>Error values\<close>

text \<open>
  A Go \<^verbatim>\<open>error\<close> interface value is an \<open>error option\<close>, \<^term>\<open>None\<close> for
  \<^verbatim>\<open>nil\<close>.  The non-nil values are the three kinds this package meets:
  \<^item> \<open>errorString a msg\<close>: a value without \<^verbatim>\<open>Unwrap\<close> or \<^verbatim>\<open>Is\<close> method, as
    \<^verbatim>\<open>errors.New\<close> makes them; \<open>a\<close> is its address, so that two values with the same
    text are different errors, as they are for Go's \<^verbatim>\<open>==\<close>;
  \<^item> \<open>wrapErrors msg errs\<close>: what \<^verbatim>\<open>fmt.Errorf\<close> returns for a format with several
    \<^verbatim>\<open>%w\<close> verbs, \<^verbatim>\<open>Unwrap() []error\<close> returning \<open>errs\<close>;
  \<^item> \<open>joinError errs\<close>: what \<^verbatim>\<open>errors.Join\<close> returns.
  Every value is comparable.  Composite values are compared by structure, which agrees
  with Go's comparison of addresses whenever one and the same value is compared with
  itself, the only comparisons the theorems below rely on.
\<close>

datatype error =
    errorString nat string
  | wrapErrors string "error list"
  | joinError "error list"

text \<open>The method \<^verbatim>\<open>Error()\<close>; a joined error prints its parts on separate lines.\<close>

fun Error :: "error \<Rightarrow> string" where
  "Error (errorString a msg) = msg"
| "Error (wrapErrors msg errs) = msg"
| "Error (joinError errs) = Join (map Error errs) nl"

text \<open>\<^verbatim>\<open>fmt.Errorf("%w: %w", e1, e2)\<close> for non-nil operands.\<close>

definition fmt_Errorf :: "error \<Rightarrow> error \<Rightarrow> error" where
  "fmt_Errorf e1 e2 = wrapErrors (Error e1 @ '': '' @ Error e2) [e1, e2]"

text \<open>\<^verbatim>\<open>errors.Join\<close>: \<^verbatim>\<open>nil\<close> operands are dropped, and no operand left gives \<^verbatim>\<open>nil\<close>.\<close>

definition errors_Join :: "error option list \<Rightarrow> error option" where
  "errors_Join errs =
     (let es = concat (map (\<lambda>e. case e of None \<Rightarrow> [] | Some x \<Rightarrow> [x]) errs)
      in if es = [] then None else Some (joinError es))"

text \<open>
  The chain walk of \<^verbatim>\<open>errors.Is\<close> (the library's \<^verbatim>\<open>is\<close>, with a comparable target):
  the error itself, then depth first through everything it unwraps to.
\<close>

fun err_is :: "error \<Rightarrow> error \<Rightarrow> bool" where
  "err_is (errorString a msg) target = (errorString a msg = target)"
| "err_is (wrapErrors msg errs) target =
     (wrapErrors msg errs = target \<or> list_ex (\<lambda>e. err_is e target) errs)"
| "err_is (joinError errs) target =
     (joinError errs = target \<or> list_ex (\<lambda>e. err_is e target) errs)"

text \<open>\<^verbatim>\<open>errors.Is\<close>: with a \<^verbatim>\<open>nil\<close> on either side it compares the two values.\<close>

definition errors_Is :: "error option \<Rightarrow> error option \<Rightarrow> bool" where
  "errors_Is err target =
     (case err of
        None \<Rightarrow> err = target
      | Some e \<Rightarrow> (case target of None \<Rightarrow> err = target | Some t \<Rightarrow> err_is e t))"

text \<open>\<^verbatim>\<open>os.ErrInvalid\<close>, which every method of a \<^verbatim>\<open>nil\<close> \<^verbatim>\<open>*os.File\<close> returns.\<close>

definition ErrInvalid :: error where
  "ErrInvalid = errorString 1 ''invalid argument''"

text \<open>
  Modelled from the spec: the declarations of the sentinels \<^verbatim>\<open>ErrStdoutCapture\<close> and
  \<^verbatim>\<open>ErrStderrCapture\<close> are not in \<^verbatim>\<open>capture.go\<close>.  The spec asks for two distinguished
  sentinel error values, for "stdout capture failed" and "stderr capture failed"; they are
  two error values at different addresses.  Their texts stand for the unknown ones, and
  nothing below depends on them.
\<close>

definition ErrStdoutCapture :: error where
  "ErrStdoutCapture = errorString 2 ''stdout capture failed''"

definition ErrStderrCapture :: error where
  "ErrStderrCapture = errorString 3 ''stderr capture failed''"

subsection \<open>Files, pipes and the two global handles\<close>

text \<open>
  A value of type \<^verbatim>\<open>*os.File\<close> is \<^verbatim>\<open>nil\<close>, an ordinary open file (the terminal, say),
  or one of the two ends of a pipe.
\<close>

datatype os_File = NilFile | Fd nat | PipeRead nat | PipeWrite nat

text \<open>The addresses \<^verbatim>\<open>&os.Stdout\<close> and \<^verbatim>\<open>&os.Stderr\<close>.\<close>

datatype var = os_Stdout | os_Stderr

text \<open>
  What the program does to the process, in the order it does it: an assignment to one of
  the two handles, the start of a goroutine that drains a read end, the closing of a
  file, and the receipt of a drain's result from its two channels.
\<close>

datatype event = Assigned var os_File | Spawned os_File | Closed os_File | Received os_File

text \<open>
  The state of the process.  \<open>pipe_error k\<close> is the outcome of the \<open>k\<close>-th call of
  \<^verbatim>\<open>os.Pipe\<close> (\<^term>\<open>None\<close>: the pipe is made), which the operating system decides.
\<close>

record world =
  Stdout :: os_File
  Stderr :: os_File
  written :: "nat \<Rightarrow> string"
  pipe_data :: "nat \<Rightarrow> string"
  pipe_closed :: "nat \<Rightarrow> bool"
  pipe_calls :: nat
  pipe_error :: "nat \<Rightarrow> error option"
  trace :: "event list"

fun load :: "var \<Rightarrow> world \<Rightarrow> os_File" where
  "load os_Stdout s = Stdout s"
| "load os_Stderr s = Stderr s"

fun store :: "var \<Rightarrow> os_File \<Rightarrow> world \<Rightarrow> world" where
  "store os_Stdout f s = s\<lparr>Stdout := f, trace := trace s @ [Assigned os_Stdout f]\<rparr>"
| "store os_Stderr f s = s\<lparr>Stderr := f, trace := trace s @ [Assigned os_Stderr f]\<rparr>"

text \<open>
  \<^verbatim>\<open>os.Pipe()\<close>: a fresh, empty, open pipe, or two \<^verbatim>\<open>nil\<close> files and an error.
\<close>

definition os_Pipe :: "world \<Rightarrow> (os_File \<times> os_File \<times> error option) \<times> world" where
  "os_Pipe s =
     (let k = pipe_calls s in
      case pipe_error s k of
        Some e \<Rightarrow> ((NilFile, NilFile, Some e), s\<lparr>pipe_calls := k + 1\<rparr>)
      | None \<Rightarrow>
          ((PipeRead k, PipeWrite k, None),
           s\<lparr>pipe_data := (pipe_data s)(k := []),
             pipe_closed := (pipe_closed s)(k := False),
             pipe_calls := k + 1\<rparr>))"

text \<open>
  \<^verbatim>\<open>(*os.File).Write\<close> and \<^verbatim>\<open>WriteString\<close>: the bytes reach an ordinary file or an
  open pipe; on a \<^verbatim>\<open>nil\<close> file, a read end or a closed pipe the call fails and nothing
  is written.
\<close>

definition Write :: "os_File \<Rightarrow> string \<Rightarrow> world \<Rightarrow> world" where
  "Write f b s =
     (case f of
        Fd n \<Rightarrow> s\<lparr>written := (written s)(n := written s n @ b)\<rparr>
      | PipeWrite p \<Rightarrow>
          if pipe_closed s p then s
          else s\<lparr>pipe_data := (pipe_data s)(p := pipe_data s p @ b)\<rparr>
      | _ \<Rightarrow> s)"

text \<open>\<^verbatim>\<open>(*os.File).Close\<close>, whose error \<^verbatim>\<open>capture\<close> ignores.\<close>

definition Close :: "os_File \<Rightarrow> world \<Rightarrow> world" where
  "Close f s =
     (case f of
        PipeWrite p \<Rightarrow> s\<lparr>pipe_closed := (pipe_closed s)(p := True), trace := trace s @ [Closed f]\<rparr>
      | _ \<Rightarrow> s\<lparr>trace := trace s @ [Closed f]\<rparr>)"

subsection \<open>The copy function and the drain\<close>

text \<open>
  The goroutine of \<^verbatim>\<open>capture\<close> runs \<^verbatim>\<open>copyFn(&buf, r)\<close> and then sends
  \<^verbatim>\<open>buf.String()\<close> and the error.  A copy function is modelled by what it leaves in
  the buffer and the error it returns when it has run to its end on a read end, in a
  state in which everything that will ever be written to the pipe has been written.
\<close>

type_synonym copy_fn = "os_File \<Rightarrow> world \<Rightarrow> string \<times> error option"

text \<open>
  \<^verbatim>\<open>io.Copy\<close>, the initial value of the variable \<^verbatim>\<open>copyFn\<close>: it reads to the end of
  the stream and returns no error; reading a \<^verbatim>\<open>nil\<close> file fails with
  \<^verbatim>\<open>os.ErrInvalid\<close>, and so does reading a file that is not the read end of a pipe
  (\<^verbatim>\<open>capture\<close> never passes one).
\<close>

definition io_Copy :: copy_fn where
  "io_Copy src s =
     (case src of
        PipeRead p \<Rightarrow> (pipe_data s p, None)
      | _ \<Rightarrow> ([], Some ErrInvalid))"

subsection \<open>capture\<close>

text \<open>The first closure \<^verbatim>\<open>capture\<close> returns: \<^verbatim>\<open>func() { *t = og }\<close>.\<close>

definition restore :: "var \<Rightarrow> os_File \<Rightarrow> world \<Rightarrow> world" where
  "restore t og s = store t og s"

text \<open>
  The second closure: \<^verbatim>\<open>func() (string, error) { w.Close(); return <-c, <-e }\<close>.
  The write end is closed first; the two receives then yield what the goroutine's copy
  left in its buffer and the copy's error.
\<close>

definition finish :: "copy_fn \<Rightarrow> os_File \<Rightarrow> os_File \<Rightarrow> world \<Rightarrow> (string \<times> error option) \<times> world" where
  "finish copyFn r w s =
     (let s1 = Close w s;
          (buf, err) = copyFn r s1
      in ((buf, err), s1\<lparr>trace := trace s1 @ [Received r]\<rparr>))"

text \<open>
  \<^verbatim>\<open>capture(t)\<close>, lines 31 to 46.  The error of \<^verbatim>\<open>os.Pipe\<close> is assigned to the blank
  identifier.  The variable \<^verbatim>\<open>copyFn\<close> of the package is a parameter.
\<close>

definition capture ::
  "copy_fn \<Rightarrow> var \<Rightarrow> world \<Rightarrow>
     ((world \<Rightarrow> world) \<times> (world \<Rightarrow> (string \<times> error option) \<times> world)) \<times> world" where
  "capture copyFn t s =
     (let og = load t s;
          ((r, w, _), s1) = os_Pipe s;
          s2 = store t w s1;
          s3 = s2\<lparr>trace := trace s2 @ [Spawned r]\<rparr>
      in ((restore t og, finish copyFn r w), s3))"

subsection \<open>Output\<close>

text \<open>
  The function passed to \<^verbatim>\<open>Output\<close> may do anything to the process, and then returns
  an error or \<^verbatim>\<open>nil\<close>, or panics.
\<close>

datatype 'a outcome = Returns 'a | Panics

text \<open>Deferred calls run last in, first out; the head of the list is the last deferred.\<close>

fun run_deferred :: "(world \<Rightarrow> world) list \<Rightarrow> world \<Rightarrow> world" where
  "run_deferred [] s = s"
| "run_deferred (f # fs) s = run_deferred fs (f s)"

text \<open>
  \<^verbatim>\<open>Output(fn)\<close>, lines 78 to 112.  When \<^verbatim>\<open>fn\<close> panics, the deferred calls run and
  the panic goes on to the caller.
\<close>

definition Output ::
  "copy_fn \<Rightarrow> (world \<Rightarrow> error option outcome \<times> world) \<Rightarrow> world \<Rightarrow>
     (string list option \<times> string list option \<times> error option) outcome \<times> world" where
  "Output copyFn fn s0 =
     (let ((restoreStdout, closeout), s1) = capture copyFn os_Stdout s0;
          deferred = [restoreStdout];
          ((restoreStderr, closeerr), s2) = capture copyFn os_Stderr s1;
          deferred = restoreStderr # deferred
      in case fn s2 of
           (Panics, s3) \<Rightarrow> (Panics, run_deferred deferred s3)
         | (Returns fnerr, s3) \<Rightarrow>
            (let errs = [fnerr];
                 ((stdout, err), s4) = closeout s3;
                 (errs, stdout) =
                    (case err of
                       Some e \<Rightarrow> (errs @ [Some (fmt_Errorf ErrStdoutCapture e)], [])
                     | None \<Rightarrow> (errs, stdout));
                 ((stderr, err), s5) = closeerr s4;
                 (errs, stderr) =
                    (case err of
                       Some e \<Rightarrow> (errs @ [Some (fmt_Errorf ErrStderrCapture e)], [])
                     | None \<Rightarrow> (errs, stderr))
             in (Returns (strings stdout, strings stderr, errors_Join errs),
                 run_deferred deferred s5)))"

subsection \<open>The test of the package\<close>

text \<open>
  What \<^verbatim>\<open>capture_test.go\<close> runs \<^verbatim>\<open>Output\<close> on.  \<^verbatim>\<open>fmt.Println(a)\<close> writes
  \<open>a\<close> and a line terminator to the file \<^verbatim>\<open>os.Stdout\<close> holds at the time of the call;
  \<^verbatim>\<open>os.Stderr.WriteString(b)\<close> writes \<open>b\<close> to the file \<^verbatim>\<open>os.Stderr\<close> holds.
\<close>

definition fmt_Println :: "string \<Rightarrow> world \<Rightarrow> world" where
  "fmt_Println a s = Write (load os_Stdout s) (a @ [nl]) s"

definition WriteString :: "var \<Rightarrow> string \<Rightarrow> world \<Rightarrow> world" where
  "WriteString t b s = Write (load t s) b s"

text \<open>The closure \<^verbatim>\<open>writeOutput\<close> of \<^verbatim>\<open>TestCapture\<close> (lines 15 to 20).\<close>

definition writeOutput :: "world \<Rightarrow> world" where
  "writeOutput s =
     (let s1 = fmt_Println ''to stdout (1)'' s;
          s2 = fmt_Println ''to stdout (2)'' s1;
          s3 = WriteString os_Stderr (''to stderr (1)'' @ [nl]) s2
      in WriteString os_Stderr ''to stderr (2)'' s3)"

text \<open>The function of lines 23 to 26: it writes, and returns \<^verbatim>\<open>fnerr\<close>.\<close>

definition TestCapture_fn :: "error \<Rightarrow> world \<Rightarrow> error option outcome \<times> world" where
  "TestCapture_fn fnerr s = (Returns (Some fnerr), writeOutput s)"

text \<open>
  The copy function line 78 installs in \<^verbatim>\<open>copyFn\<close>: it copies as \<^verbatim>\<open>io.Copy\<close> does,
  drops that call's results and returns \<^verbatim>\<open>cpyerr\<close>.
\<close>

definition failing_copy :: "error \<Rightarrow> copy_fn" where
  "failing_copy cpyerr src s = (fst (io_Copy src s), Some cpyerr)"

text \<open>The function of line 81: one line to stdout, no error.\<close>

definition some_output_fn :: "world \<Rightarrow> error option outcome \<times> world" where
  "some_output_fn s = (Returns None, fmt_Println ''some output'' s)"

text \<open>The function of line 55: no output, no error.\<close>

definition no_output_fn :: "world \<Rightarrow> error option outcome \<times> world" where
  "no_output_fn s = (Returns None, s)"

text \<open>
  A process before any capture: the two handles hold two ordinary files, nothing has been
  written, no pipe exists, and the first two calls of \<^verbatim>\<open>os.Pipe\<close> will succeed unless
  \<open>fail\<close> says otherwise.
\<close>

definition fresh_world :: "(nat \<Rightarrow> error option) \<Rightarrow> world" where
  "fresh_world fail =
     \<lparr>Stdout = Fd 1, Stderr = Fd 2, written = (\<lambda>n. []), pipe_data = (\<lambda>p. []),
      pipe_closed = (\<lambda>p. False), pipe_calls = 0, pipe_error = fail, trace = []\<rparr>"

subsection \<open>The drain goroutine and finish as two threads\<close>

text \<open>
  The function \<^const>\<open>finish\<close> above gives the outcome of the finish closure in one step.
  Here the closure and the goroutine of \<^verbatim>\<open>capture\<close> (lines 36 to 45) run as two
  threads whose steps interleave, from the moment the finish closure is called.

  The caller runs \<^verbatim>\<open>w.Close(); return <-c, <-e\<close>: it is about to close, about to
  receive from \<^verbatim>\<open>c\<close>, about to receive from \<^verbatim>\<open>e\<close>, or has returned.  The goroutine
  runs \<^verbatim>\<open>copyFn(&buf, r); c <- buf.String(); e <- err\<close>: it is copying, about to send on
  \<^verbatim>\<open>c\<close>, about to send on \<^verbatim>\<open>e\<close>, or has ended.
\<close>

datatype finish_pc = AtClose | AtRecvText | AtRecvErr | Returned

datatype drain_pc = AtCopy | AtSendText | AtSendErr | Exited

text \<open>
  \<open>w_open\<close>: the write end is open.  \<open>unread\<close>: the bytes written to the pipe and not yet
  read.  \<open>read_error\<close>: the error every read of \<^verbatim>\<open>r\<close> fails with, if any
  (\<^verbatim>\<open>os.ErrInvalid\<close> when \<^verbatim>\<open>os.Pipe\<close> failed and \<^verbatim>\<open>r\<close> is \<^verbatim>\<open>nil\<close>).  \<open>stub\<close>: the
  error the copy function returns in place of the result of \<^verbatim>\<open>io.Copy\<close>, if it is the
  function of the test and not \<^verbatim>\<open>io.Copy\<close> itself.  \<open>buf\<close> and \<open>cerr\<close> are the
  goroutine's buffer and the error of its copy, \<open>got_text\<close> and \<open>got_err\<close> what the caller
  has received.
\<close>

record session =
  fpc :: finish_pc
  dpc :: drain_pc
  w_open :: bool
  unread :: string
  read_error :: "error option"
  stub :: "error option"
  buf :: string
  cerr :: "error option"
  got_text :: string
  got_err :: "error option"

text \<open>
  One step of one thread, or of both at a channel: the channels \<^verbatim>\<open>c\<close> and \<^verbatim>\<open>e\<close> are
  unbuffered, so a send and its receive happen together.  A read on an open, empty pipe
  blocks: no rule applies to it.  \<^verbatim>\<open>io.Copy\<close> ends without error at the end of the
  stream, which a read meets when the pipe is empty and its write end closed.
\<close>

inductive step :: "session \<Rightarrow> session \<Rightarrow> bool" where
  Close: "fpc s = AtClose \<Longrightarrow> step s (s\<lparr>fpc := AtRecvText, w_open := False\<rparr>)"
| Read: "dpc s = AtCopy \<Longrightarrow> read_error s = None \<Longrightarrow> unread s = a @ b \<Longrightarrow> a \<noteq> [] \<Longrightarrow>
     step s (s\<lparr>unread := b, buf := buf s @ a\<rparr>)"
| Eof: "dpc s = AtCopy \<Longrightarrow> read_error s = None \<Longrightarrow> unread s = [] \<Longrightarrow> \<not> w_open s \<Longrightarrow>
     step s (s\<lparr>dpc := AtSendText, cerr := stub s\<rparr>)"
| ReadFails: "dpc s = AtCopy \<Longrightarrow> read_error s = Some x \<Longrightarrow>
     step s (s\<lparr>dpc := AtSendText, cerr := (case stub s of None \<Rightarrow> Some x | Some y \<Rightarrow> Some y)\<rparr>)"
| Text: "fpc s = AtRecvText \<Longrightarrow> dpc s = AtSendText \<Longrightarrow>
     step s (s\<lparr>fpc := AtRecvErr, dpc := AtSendErr, got_text := buf s\<rparr>)"
| Err: "fpc s = AtRecvErr \<Longrightarrow> dpc s = AtSendErr \<Longrightarrow>
     step s (s\<lparr>fpc := Returned, dpc := Exited, got_err := cerr s\<rparr>)"

text \<open>Any number of steps.\<close>

inductive steps :: "session \<Rightarrow> session \<Rightarrow> bool" where
  here: "steps s s"
| further: "steps s s' \<Longrightarrow> step s' s'' \<Longrightarrow> steps s s''"

text \<open>What is left to do: every step makes it smaller.\<close>

fun drain_rank :: "drain_pc \<Rightarrow> nat" where
  "drain_rank AtCopy = 3"
| "drain_rank AtSendText = 2"
| "drain_rank AtSendErr = 1"
| "drain_rank Exited = 0"

definition rank :: "session \<Rightarrow> nat" where
  "rank s = length (unread s) + drain_rank (dpc s) + (if fpc s = AtClose then 1 else 0)"

text \<open>
  A session as the finish closure finds it when it is called: the caller is about to
  close, and the goroutine is still copying or, its copy over, waits to send.
\<close>

definition at_call :: "session \<Rightarrow> bool" where
  "at_call s \<longleftrightarrow> fpc s = AtClose \<and> (dpc s = AtCopy \<or> dpc s = AtSendText)"

text \<open>
  The session in which finish is called after the bytes \<open>b\<close> were written to the pipe and
  before the goroutine has read any of them.
\<close>

definition fresh_session :: "string \<Rightarrow> error option \<Rightarrow> error option \<Rightarrow> session" where
  "fresh_session b rerr stb =
     \<lparr>fpc = AtClose, dpc = AtCopy, w_open = True, unread = b, read_error = rerr, stub = stb,
      buf = [], cerr = None, got_text = [], got_err = None\<rparr>"

text \<open>
  What the copy of a session that starts in \<open>s0\<close> leaves in the buffer, and what it
  returns: everything written when reads succeed, and then the stub's error or none;
  nothing more than is in the buffer when reads fail, and then the stub's error or the
  error of the read.  When the copy is already over in \<open>s0\<close>, it is what \<open>s0\<close> holds.
\<close>

definition copied :: "session \<Rightarrow> string" where
  "copied s0 = (if dpc s0 = AtCopy \<and> read_error s0 = None then buf s0 @ unread s0 else buf s0)"

definition copy_result :: "session \<Rightarrow> error option" where
  "copy_result s0 =
     (if dpc s0 = AtCopy then
        (case read_error s0 of
           None \<Rightarrow> stub s0
         | Some x \<Rightarrow> (case stub s0 of None \<Rightarrow> Some x | Some y \<Rightarrow> Some y))
      else cerr s0)"

text \<open>
  Two invariants of the runs.  The first relates the two program counters and the
  state of the write end; the second relates a state to the state \<open>s0\<close> the run began in.
\<close>

definition sess_inv :: "session \<Rightarrow> bool" where
  "sess_inv s \<longleftrightarrow>
     (fpc s \<noteq> AtClose \<longrightarrow> \<not> w_open s)
     \<and> (fpc s = AtClose \<or> fpc s = AtRecvText \<longrightarrow> dpc s = AtCopy \<or> dpc s = AtSendText)
     \<and> (fpc s = AtRecvErr \<longrightarrow> dpc s = AtSendErr)
     \<and> (fpc s = Returned \<longrightarrow> dpc s = Exited)"

definition run_inv :: "session \<Rightarrow> session \<Rightarrow> bool" where
  "run_inv s0 s \<longleftrightarrow>
     read_error s = read_error s0 \<and> stub s = stub s0
     \<and> (dpc s = AtCopy \<longrightarrow>
           dpc s0 = AtCopy \<and> buf s @ unread s = buf s0 @ unread s0
         \<and> (read_error s0 \<noteq> None \<longrightarrow> buf s = buf s0))
     \<and> (dpc s \<noteq> AtCopy \<longrightarrow> buf s = copied s0 \<and> cerr s = copy_result s0)
     \<and> (dpc s \<noteq> AtCopy \<and> dpc s0 = AtCopy \<and> read_error s0 = None \<longrightarrow> \<not> w_open s)
     \<and> (fpc s = AtRecvErr \<or> fpc s = Returned \<longrightarrow> got_text s = copied s0)
     \<and> (fpc s = Returned \<longrightarrow> got_err s = copy_result s0)"

subsection \<open>Facts about splitting\<close>

lemma Split_Nil [simp]: "Split [] sep = [[]]"
  by (simp add: Split.simps)

lemma Split_sep [simp]: "Split (sep # cs) sep = [] # Split cs sep"
  by (subst Split.simps) simp

lemma Split_other:
  assumes "c \<noteq> sep"
  shows "Split (c # cs) sep = (c # hd (Split cs sep)) # tl (Split cs sep)"
proof (cases "sep \<in> set cs")
  case True
  with assms show ?thesis
    by (subst Split.simps, subst (2 3) Split.simps) simp
next
  case False
  with assms show ?thesis
    by (subst Split.simps, subst (2 3) Split.simps) simp
qed

lemma Split_not_Nil [simp]: "Split s sep \<noteq> []"
  by (subst Split.simps) simp

lemma Split_Cons [simp]:
  "Split (c # cs) sep =
     (if c = sep then [] # Split cs sep
      else (c # hd (Split cs sep)) # tl (Split cs sep))"
  by (simp add: Split_other)

lemma Split_no_sep: "sep \<notin> set s \<Longrightarrow> Split s sep = [s]"
  by (subst Split.simps) simp

lemma Split_length_ge2: "sep \<in> set s \<Longrightarrow> 2 \<le> length (Split s sep)"
proof -
  assume "sep \<in> set s"
  then have "Split s sep = takeWhile (\<lambda>c. c \<noteq> sep) s # Split (tl (dropWhile (\<lambda>c. c \<noteq> sep) s)) sep"
    by (subst Split.simps) simp
  moreover have "1 \<le> length (Split (tl (dropWhile (\<lambda>c. c \<noteq> sep) s)) sep)"
    by (cases "Split (tl (dropWhile (\<lambda>c. c \<noteq> sep) s)) sep") simp_all
  ultimately show ?thesis by simp
qed

lemma Split_length_1: "length (Split s sep) = 1 \<longleftrightarrow> sep \<notin> set s"
  using Split_length_ge2 [of sep s] Split_no_sep [of sep s] by auto

lemma Join_Cons: "ys \<noteq> [] \<Longrightarrow> Join (x # ys) sep = x @ sep # Join ys sep"
  by (cases ys) simp_all

lemma hd_tl_Split: "hd (Split s sep) # tl (Split s sep) = Split s sep"
  by simp

lemma Join_Split: "Join (Split s sep) sep = s"
proof (induction s)
  case Nil
  show ?case by simp
next
  case (Cons c cs)
  show ?case
  proof (cases "c = sep")
    case True
    with Cons show ?thesis by (simp add: Join_Cons)
  next
    case False
    obtain x xs where L: "Split cs sep = x # xs" by (cases "Split cs sep") simp_all
    with Cons have J: "Join (x # xs) sep = cs" by simp
    show ?thesis
    proof (cases xs)
      case Nil
      with False L J show ?thesis by simp
    next
      case (Cons y ys)
      with False L J show ?thesis by simp
    qed
  qed
qed

lemma Split_segments: "seg \<in> set (Split s sep) \<Longrightarrow> sep \<notin> set seg"
proof (induction s arbitrary: seg)
  case Nil
  then show ?case by simp
next
  case (Cons c cs)
  obtain x xs where L: "Split cs sep = x # xs" by (cases "Split cs sep") simp_all
  from Cons.IH L have "sep \<notin> set x" and "\<And>y. y \<in> set xs \<Longrightarrow> sep \<notin> set y" by simp_all
  with Cons.prems L show ?case by (auto split: if_splits)
qed

lemma last_Split: "last (Split s sep) = [] \<longleftrightarrow> s = [] \<or> last s = sep"
proof (induction s)
  case Nil
  show ?case by simp
next
  case (Cons c cs)
  obtain x xs where L: "Split cs sep = x # xs" by (cases "Split cs sep") simp_all
  show ?case
  proof (cases "c = sep")
    case True
    with Cons L show ?thesis by auto
  next
    case False
    show ?thesis
    proof (cases "xs = []")
      case True
      with L have "length (Split cs sep) = 1" by simp
      then have "sep \<notin> set cs" using Split_length_1 [of cs sep] by blast
      then have "cs \<noteq> [] \<longrightarrow> last cs \<noteq> sep" using last_in_set [of cs] by auto
      with False L True show ?thesis by auto
    next
      case ne: False
      then have "cs \<noteq> []" using L by auto
      with False L ne Cons.IH show ?thesis by auto
    qed
  qed
qed

lemma strings_guard:
  "(length (Split s nl) > 1 \<or> (length (Split s nl) = 1 \<and> Split s nl ! 0 \<noteq> [])) \<longleftrightarrow> s \<noteq> []"
proof (cases s)
  case Nil
  then show ?thesis by simp
next
  case (Cons c cs)
  obtain x xs where L: "Split cs nl = x # xs" by (cases "Split cs nl") simp_all
  with Cons show ?thesis by simp
qed

lemma strings_eq:
  "strings s = (if s = [] then None
     else Some (if last (Split s nl) = [] then butlast (Split s nl) else Split s nl))"
  using strings_guard [of s]
  by (simp add: strings_def Let_def last_conv_nth butlast_conv_take del: One_nat_def)

subsection \<open>The line-splitting rule\<close>

text \<open>
  C1: the closure \<^verbatim>\<open>strings\<close> returns \<^verbatim>\<open>nil\<close> for the empty text; for every other text
  it returns the segments between the line terminators in order, without the last segment
  when that is empty, which is the case exactly when the text ends with a terminator.
  That \<^const>\<open>Split\<close> splits on the terminator is said without reference to its definition:
  no segment contains a terminator, and the segments joined by terminators are the text.
  No byte written gives \<^verbatim>\<open>nil\<close>, one terminator written gives one empty line.
\<close>

theorem strings_line_splitting:
  "strings [] = None
   \<and> strings [nl] = Some [[]]
   \<and> (s \<noteq> [] \<longrightarrow>
        strings s = Some (if last (Split s nl) = [] then butlast (Split s nl) else Split s nl))
   \<and> Join (Split s nl) nl = s
   \<and> (\<forall>seg \<in> set (Split s nl). nl \<notin> set seg)
   \<and> (last (Split s nl) = [] \<longleftrightarrow> s = [] \<or> last s = nl)"
proof -
  have "strings [] = None" by (simp add: strings_eq)
  moreover have "strings [nl] = Some [[]]" by (simp add: strings_eq)
  moreover have "s \<noteq> [] \<longrightarrow>
      strings s = Some (if last (Split s nl) = [] then butlast (Split s nl) else Split s nl)"
    by (simp add: strings_eq)
  moreover have "Join (Split s nl) nl = s" by (rule Join_Split)
  moreover have "\<forall>seg \<in> set (Split s nl). nl \<notin> set seg" using Split_segments by blast
  moreover have "last (Split s nl) = [] \<longleftrightarrow> s = [] \<or> last s = nl" by (rule last_Split)
  ultimately show ?thesis by blast
qed

theorem strings_line_splitting_witness:
  "[CHR ''a'', nl, CHR ''b'', nl] \<noteq> []
   \<and> strings [CHR ''a'', nl, CHR ''b'', nl] = Some [''a'', ''b'']
   \<and> Join [''a'', ''b'', []] nl = [CHR ''a'', nl, CHR ''b'', nl]"
  using strings_line_splitting [of "[CHR ''a'', nl, CHR ''b'', nl]"]
  by (simp add: nl_def)

subsection \<open>Facts about capture and Output\<close>

lemma capture_restore: "fst (fst (capture copyFn t s)) = restore t (load t s)"
  by (simp add: capture_def Let_def case_prod_beta)

lemma capture_finish_made:
  "pipe_error s (pipe_calls s) = None \<Longrightarrow>
   snd (fst (capture copyFn t s)) = finish copyFn (PipeRead (pipe_calls s)) (PipeWrite (pipe_calls s))"
  by (simp add: capture_def os_Pipe_def Let_def)

lemma capture_finish_failed:
  "pipe_error s (pipe_calls s) = Some e \<Longrightarrow>
   snd (fst (capture copyFn t s)) = finish copyFn NilFile NilFile"
  by (simp add: capture_def os_Pipe_def Let_def)

lemma load_store: "load t' (store t f s) = (if t' = t then f else load t' s)"
  by (cases t; cases t') simp_all

lemma load_trace_update [simp]: "load t (s\<lparr>trace := x\<rparr>) = load t s"
  by (cases t) simp_all

lemma load_os_Pipe [simp]: "load t (snd (os_Pipe s)) = load t s"
  by (cases t) (simp_all add: os_Pipe_def Let_def split: option.splits)

lemma load_capture:
  "load t' (snd (capture copyFn t s)) =
     (if t' = t then fst (snd (fst (os_Pipe s))) else load t' s)"
  by (simp add: capture_def Let_def load_store case_prod_beta)

lemma capture_world_indep: "snd (capture copyFn t s) = snd (capture copyFn' t s)"
  by (simp add: capture_def Let_def case_prod_beta)

lemma Output_Returns:
  assumes "capture copyFn os_Stdout s0 = ((restoreStdout, closeout), s1)"
    and "capture copyFn os_Stderr s1 = ((restoreStderr, closeerr), s2)"
    and "fn s2 = (Returns fnerr, s3)"
    and "closeout s3 = ((out, oerr), s4)"
    and "closeerr s4 = ((err, eerr), s5)"
  shows "Output copyFn fn s0 =
     (Returns (strings (case oerr of None \<Rightarrow> out | Some e \<Rightarrow> []),
               strings (case eerr of None \<Rightarrow> err | Some e \<Rightarrow> []),
               errors_Join ([fnerr]
                 @ (case oerr of None \<Rightarrow> [] | Some e \<Rightarrow> [Some (fmt_Errorf ErrStdoutCapture e)])
                 @ (case eerr of None \<Rightarrow> [] | Some e \<Rightarrow> [Some (fmt_Errorf ErrStderrCapture e)]))),
      restoreStdout (restoreStderr s5))"
  using assms by (simp add: Output_def Let_def split: option.splits)

lemma Output_Panics:
  assumes "capture copyFn os_Stdout s0 = ((restoreStdout, closeout), s1)"
    and "capture copyFn os_Stderr s1 = ((restoreStderr, closeerr), s2)"
    and "fn s2 = (Panics, s3)"
  shows "Output copyFn fn s0 = (Panics, restoreStdout (restoreStderr s3))"
  using assms by (simp add: Output_def Let_def)

lemma Output_world:
  "\<exists>s. snd (Output copyFn fn s0) = restore os_Stdout (Stdout s0) (restore os_Stderr (Stderr s0) s)"
proof -
  obtain restoreStdout closeout s1 where c1: "capture copyFn os_Stdout s0 = ((restoreStdout, closeout), s1)"
    by (metis surj_pair)
  obtain restoreStderr closeerr s2 where c2: "capture copyFn os_Stderr s1 = ((restoreStderr, closeerr), s2)"
    by (metis surj_pair)
  have r1: "restoreStdout = restore os_Stdout (Stdout s0)"
    using capture_restore [of copyFn os_Stdout s0] c1 by simp
  have "load os_Stderr s1 = load os_Stderr s0"
    using load_capture [of os_Stderr copyFn os_Stdout s0] c1 by simp
  then have r2: "restoreStderr = restore os_Stderr (Stderr s0)"
    using capture_restore [of copyFn os_Stderr s1] c2 by simp
  obtain res s3 where f: "fn s2 = (res, s3)" by (metis surj_pair)
  show ?thesis
  proof (cases res)
    case Panics
    with c1 c2 f r1 r2 show ?thesis by (auto simp: Output_Panics)
  next
    case (Returns fnerr)
    obtain out oerr s4 where o: "closeout s3 = ((out, oerr), s4)" by (metis surj_pair)
    obtain err eerr s5 where e: "closeerr s4 = ((err, eerr), s5)" by (metis surj_pair)
    from c1 c2 f Returns o e r1 r2 show ?thesis by (auto simp: Output_Returns)
  qed
qed

subsection \<open>Facts about error values\<close>

lemma err_is_refl [simp]: "err_is e e"
  by (cases e) simp_all

lemma err_is_joinError: "e \<in> set es \<Longrightarrow> err_is e t \<Longrightarrow> err_is (joinError es) t"
  by (auto simp: list_ex_iff)

lemma err_is_fmt_Errorf: "err_is a t \<or> err_is b t \<Longrightarrow> err_is (fmt_Errorf a b) t"
  by (auto simp: fmt_Errorf_def)

lemma errors_Join_None: "errors_Join errs = None \<longleftrightarrow> (\<forall>e \<in> set errs. e = None)"
  by (auto simp: errors_Join_def Let_def split: option.splits)

lemma errors_Is_Join:
  assumes "Some c \<in> set errs" and "err_is c t"
  shows "errors_Is (errors_Join errs) (Some t)"
proof -
  let ?es = "concat (map (\<lambda>e. case e of None \<Rightarrow> [] | Some x \<Rightarrow> [x]) errs)"
  from assms(1) have mem: "c \<in> set ?es" by force
  then have ne: "?es \<noteq> []" by (metis empty_iff empty_set)
  from mem assms(2) have "err_is (joinError ?es) t" by (rule err_is_joinError)
  with ne have "?es \<noteq> [] \<and> err_is (joinError ?es) t" by simp
  then show ?thesis by (simp add: errors_Is_def errors_Join_def Let_def)
qed

lemma errors_Join_candidates:
  "errors_Join (fnerr
      # (case oerr of None \<Rightarrow> [] | Some e \<Rightarrow> [Some (f e)])
      @ (case eerr of None \<Rightarrow> [] | Some e \<Rightarrow> [Some (g e)]))
   = errors_Join [fnerr, map_option f oerr, map_option g eerr]"
  by (simp add: errors_Join_def Let_def split: option.splits)

lemma errors_Is_None [simp]: "errors_Is None None"
  by (simp add: errors_Is_def)

lemma capture_closures:
  "\<exists>r w s'. capture copyFn t s = ((restore t (load t s), finish copyFn r w), s')"
  by (simp add: capture_def Let_def case_prod_beta) blast

lemma finish_failing_copy: "\<exists>out s'. finish (failing_copy c) r w s = ((out, Some c), s')"
  by (simp add: finish_def failing_copy_def Let_def)

subsection \<open>The joined error\<close>




subsection \<open>The state after capture and finish\<close>

lemma capture_made:
  assumes "pipe_error s (pipe_calls s) = None"
  shows "capture copyFn t s =
    ((restore t (load t s),
      finish copyFn (PipeRead (pipe_calls s)) (PipeWrite (pipe_calls s))),
     (let s2 = store t (PipeWrite (pipe_calls s))
                 (s\<lparr>pipe_data := (pipe_data s)(pipe_calls s := []),
                    pipe_closed := (pipe_closed s)(pipe_calls s := False),
                    pipe_calls := pipe_calls s + 1\<rparr>)
      in s2\<lparr>trace := trace s2 @ [Spawned (PipeRead (pipe_calls s))]\<rparr>))"
  using assms by (simp add: capture_def os_Pipe_def Let_def)

lemma capture_failed:
  assumes "pipe_error s (pipe_calls s) = Some e"
  shows "capture copyFn t s =
    ((restore t (load t s), finish copyFn NilFile NilFile),
     (let s2 = store t NilFile (s\<lparr>pipe_calls := pipe_calls s + 1\<rparr>)
      in s2\<lparr>trace := trace s2 @ [Spawned NilFile]\<rparr>))"
  using assms by (simp add: capture_def os_Pipe_def Let_def)

lemma store_fields [simp]:
  "written (store t f s) = written s"
  "pipe_data (store t f s) = pipe_data s"
  "pipe_closed (store t f s) = pipe_closed s"
  "pipe_calls (store t f s) = pipe_calls s"
  "pipe_error (store t f s) = pipe_error s"
  "trace (store t f s) = trace s @ [Assigned t f]"
  by (cases t; simp)+

lemma load_fields [simp]:
  "load t (s\<lparr>pipe_data := a\<rparr>) = load t s"
  "load t (s\<lparr>pipe_closed := b\<rparr>) = load t s"
  "load t (s\<lparr>pipe_calls := c\<rparr>) = load t s"
  "load t (s\<lparr>written := d\<rparr>) = load t s"
  by (cases t; simp)+

lemma capture_made_fields:
  assumes "pipe_error s (pipe_calls s) = None"
  shows "load t (snd (capture copyFn t s)) = PipeWrite (pipe_calls s)"
    and "pipe_data (snd (capture copyFn t s)) = (pipe_data s)(pipe_calls s := [])"
    and "pipe_closed (snd (capture copyFn t s)) = (pipe_closed s)(pipe_calls s := False)"
  using assms by (simp_all add: capture_made Let_def load_store)

lemma capture_fields [simp]:
  "pipe_calls (snd (capture copyFn t s)) = Suc (pipe_calls s)"
  "pipe_error (snd (capture copyFn t s)) = pipe_error s"
  "written (snd (capture copyFn t s)) = written s"
  by (cases "pipe_error s (pipe_calls s)"; simp add: capture_made capture_failed Let_def)+

lemma capture_trace:
  "\<exists>r w. fst (capture copyFn t s) = (restore t (load t s), finish copyFn r w)
       \<and> trace (snd (capture copyFn t s)) = trace s @ [Assigned t w, Spawned r]
       \<and> load t (snd (capture copyFn t s)) = w"
  by (cases "pipe_error s (pipe_calls s)"; simp add: capture_made capture_failed Let_def load_store)

lemma Close_fields [simp]:
  "pipe_data (Close f s) = pipe_data s"
  "Stdout (Close f s) = Stdout s"
  "Stderr (Close f s) = Stderr s"
  "written (Close f s) = written s"
  by (cases f; simp add: Close_def)+

lemma finish_io_Copy_pipe:
  "finish io_Copy (PipeRead p) w s =
     ((pipe_data s p, None), (Close w s)\<lparr>trace := trace (Close w s) @ [Received (PipeRead p)]\<rparr>)"
  by (simp add: finish_def io_Copy_def Let_def)

lemma finish_io_Copy_nil:
  "fst (finish io_Copy NilFile w s) = ([], Some ErrInvalid)"
  by (simp add: finish_def io_Copy_def Let_def)

lemma finish_pipe_data [simp]: "pipe_data (snd (finish copyFn r w s)) = pipe_data s"
  by (simp add: finish_def Let_def case_prod_beta)

lemma Output_io_Copy_made:
  assumes p1: "pipe_error s0 (pipe_calls s0) = None"
    and p2: "pipe_error s0 (Suc (pipe_calls s0)) = None"
    and f: "fn (snd (capture io_Copy os_Stderr (snd (capture io_Copy os_Stdout s0)))) = (Returns E, s3)"
  shows "fst (Output io_Copy fn s0) =
     Returns (strings (pipe_data s3 (pipe_calls s0)), strings (pipe_data s3 (Suc (pipe_calls s0))),
              errors_Join [E])"
proof -
  let ?k = "pipe_calls s0"
  let ?s1 = "snd (capture io_Copy os_Stdout s0)"
  let ?s2 = "snd (capture io_Copy os_Stderr ?s1)"
  have c1: "capture io_Copy os_Stdout s0 =
      ((restore os_Stdout (load os_Stdout s0), finish io_Copy (PipeRead ?k) (PipeWrite ?k)), ?s1)"
    using capture_made [OF p1, of io_Copy os_Stdout] by simp
  have p2': "pipe_error ?s1 (pipe_calls ?s1) = None" using p2 by simp
  have c2: "capture io_Copy os_Stderr ?s1 =
      ((restore os_Stderr (load os_Stderr ?s1), finish io_Copy (PipeRead (Suc ?k)) (PipeWrite (Suc ?k))), ?s2)"
    using capture_made [OF p2', of io_Copy os_Stderr] by simp
  let ?s4 = "snd (finish io_Copy (PipeRead ?k) (PipeWrite ?k) s3)"
  have o: "finish io_Copy (PipeRead ?k) (PipeWrite ?k) s3 = ((pipe_data s3 ?k, None), ?s4)"
    by (simp add: finish_io_Copy_pipe)
  let ?s5 = "snd (finish io_Copy (PipeRead (Suc ?k)) (PipeWrite (Suc ?k)) ?s4)"
  have e: "finish io_Copy (PipeRead (Suc ?k)) (PipeWrite (Suc ?k)) ?s4 = ((pipe_data s3 (Suc ?k), None), ?s5)"
    by (simp add: finish_io_Copy_pipe)
  show ?thesis
    using Output_Returns [where fn = fn, OF c1 c2 f o e] by (simp add: errors_Join_def)
qed

lemma strings_Nil [simp]: "strings [] = None"
  by (simp add: strings_eq)

lemma strings_not_empty: "strings s \<noteq> Some []"
proof (cases "s = []")
  case True
  then show ?thesis by simp
next
  case False
  obtain x xs where L: "Split s nl = x # xs" by (cases "Split s nl") simp_all
  show ?thesis
  proof (cases "xs = []")
    case True
    with L have "Join (Split s nl) nl = x" by simp
    then have "x = s" by (simp add: Join_Split)
    with False L True show ?thesis by (simp add: strings_eq)
  next
    case ne: False
    with False L show ?thesis by (simp add: strings_eq)
  qed
qed

subsection \<open>A failed capture\<close>



subsection \<open>The run of the test\<close>

lemma Write_pipe_data:
  "pipe_data (Write f b s) p =
     pipe_data s p @ (if f = PipeWrite p \<and> \<not> pipe_closed s p then b else [])"
  by (cases f) (simp_all add: Write_def)

lemma Write_fields [simp]:
  "Stdout (Write f b s) = Stdout s"
  "Stderr (Write f b s) = Stderr s"
  "pipe_closed (Write f b s) = pipe_closed s"
  "load t (Write f b s) = load t s"
  by (cases f; cases t; simp add: Write_def)+

lemma writeOutput_pipe_data:
  "pipe_data (writeOutput s) p =
     pipe_data s p
     @ (if Stdout s = PipeWrite p \<and> \<not> pipe_closed s p
        then ''to stdout (1)'' @ [nl] @ ''to stdout (2)'' @ [nl] else [])
     @ (if Stderr s = PipeWrite p \<and> \<not> pipe_closed s p
        then ''to stderr (1)'' @ [nl] @ ''to stderr (2)'' else [])"
  by (simp add: writeOutput_def fmt_Println_def WriteString_def Let_def Write_pipe_data)

lemma strings_stdout_text:
  "strings (''to stdout (1)'' @ [nl] @ ''to stdout (2)'' @ [nl]) = Some [''to stdout (1)'', ''to stdout (2)'']"
  by code_simp

lemma strings_stderr_text:
  "strings (''to stderr (1)'' @ [nl] @ ''to stderr (2)'') = Some [''to stderr (1)'', ''to stderr (2)'']"
  by code_simp

lemma TestCapture_made:
  assumes p1: "pipe_error s0 (pipe_calls s0) = None"
    and p2: "pipe_error s0 (Suc (pipe_calls s0)) = None"
  shows "fst (Output io_Copy (TestCapture_fn fnerr) s0) =
     Returns (Some [''to stdout (1)'', ''to stdout (2)''],
              Some [''to stderr (1)'', ''to stderr (2)''],
              Some (joinError [fnerr]))"
proof -
  let ?k = "pipe_calls s0"
  let ?s1 = "snd (capture io_Copy os_Stdout s0)"
  let ?s2 = "snd (capture io_Copy os_Stderr ?s1)"
  have p2': "pipe_error ?s1 (pipe_calls ?s1) = None" using p2 by simp
  have out1: "Stdout ?s1 = PipeWrite ?k"
    using capture_made_fields(1) [OF p1, of os_Stdout io_Copy] by simp
  have "load os_Stdout ?s2 = load os_Stdout ?s1" by (simp add: load_capture)
  with out1 have out: "Stdout ?s2 = PipeWrite ?k" by simp
  have err: "Stderr ?s2 = PipeWrite (Suc ?k)"
    using capture_made_fields(1) [OF p2', of os_Stderr io_Copy] by simp
  have d: "pipe_data ?s2 = (pipe_data s0)(?k := [], Suc ?k := [])"
    by (simp add: capture_made_fields(2) [OF p2'] capture_made_fields(2) [OF p1])
  have c: "pipe_closed ?s2 = (pipe_closed s0)(?k := False, Suc ?k := False)"
    by (simp add: capture_made_fields(3) [OF p2'] capture_made_fields(3) [OF p1])
  have f: "TestCapture_fn fnerr ?s2 = (Returns (Some fnerr), writeOutput ?s2)"
    by (simp add: TestCapture_fn_def)
  have t1: "pipe_data (writeOutput ?s2) ?k = ''to stdout (1)'' @ [nl] @ ''to stdout (2)'' @ [nl]"
    by (simp add: writeOutput_pipe_data out err d c)
  have t2: "pipe_data (writeOutput ?s2) (Suc ?k) = ''to stderr (1)'' @ [nl] @ ''to stderr (2)''"
    by (simp add: writeOutput_pipe_data out err d c)
  show ?thesis
    unfolding Output_io_Copy_made [where fn = "TestCapture_fn fnerr", OF p1 p2 f] t1 t2 strings_stdout_text strings_stderr_text
    by (simp add: errors_Join_def)
qed


lemma Output_lines:
  assumes "Output copyFn fn s0 = (Returns (lo, le, joined), s')"
  shows "\<exists>a b. lo = strings a \<and> le = strings b"
proof -
  obtain restoreStdout closeout s1 where
    c1: "capture copyFn os_Stdout s0 = ((restoreStdout, closeout), s1)"
    by (metis surj_pair)
  obtain restoreStderr closeerr s2 where
    c2: "capture copyFn os_Stderr s1 = ((restoreStderr, closeerr), s2)"
    by (metis surj_pair)
  obtain res s3 where f: "fn s2 = (res, s3)" by (metis surj_pair)
  show ?thesis
  proof (cases res)
    case Panics
    with f have "fn s2 = (Panics, s3)" by simp
    from Output_Panics [where fn = fn, OF c1 c2 this] assms show ?thesis by simp
  next
    case (Returns fnerr)
    with f have f': "fn s2 = (Returns fnerr, s3)" by simp
    obtain out oerr s4 where o: "closeout s3 = ((out, oerr), s4)" by (metis surj_pair)
    obtain err eerr s5 where e: "closeerr s4 = ((err, eerr), s5)" by (metis surj_pair)
    from Output_Returns [where fn = fn, OF c1 c2 f' o e] assms
    have "lo = strings (case oerr of None \<Rightarrow> out | Some e \<Rightarrow> [])"
      and "le = strings (case eerr of None \<Rightarrow> err | Some e \<Rightarrow> [])"
      by simp_all
    then show ?thesis by blast
  qed
qed

subsection \<open>No empty sequence\<close>

text \<open>
  C9: for every text the closure \<^verbatim>\<open>strings\<close> returns \<^verbatim>\<open>nil\<close> or a sequence with at
  least one element, and so whenever \<^verbatim>\<open>Output\<close> returns, neither of the two sequences
  it returns is an empty sequence that is not \<^verbatim>\<open>nil\<close>.
\<close>

theorem lines_nil_or_nonempty:
  "(strings s = None \<or> (\<exists>x xs. strings s = Some (x # xs)))
   \<and> (\<forall>lo le joined s'. Output copyFn fn s0 = (Returns (lo, le, joined), s') \<longrightarrow>
         lo \<noteq> Some [] \<and> le \<noteq> Some [])"
proof -
  have "strings s = None \<or> (\<exists>x xs. strings s = Some (x # xs))"
  proof (cases "strings s")
    case None
    then show ?thesis by simp
  next
    case (Some l)
    with strings_not_empty [of s] have "l \<noteq> []" by auto
    then obtain x xs where "l = x # xs" by (cases l) auto
    with Some show ?thesis by simp
  qed
  moreover have "\<forall>lo le joined s'. Output copyFn fn s0 = (Returns (lo, le, joined), s') \<longrightarrow>
         lo \<noteq> Some [] \<and> le \<noteq> Some []"
    using Output_lines [of copyFn fn s0] strings_not_empty by metis
  ultimately show ?thesis by (rule conjI)
qed

theorem lines_nil_or_nonempty_witness:
  "strings [nl] = Some [[]]
   \<and> (case Output io_Copy no_output_fn (fresh_world (\<lambda>k. None)) of
        (Returns (lo, le, joined), s') \<Rightarrow> lo \<noteq> Some [] \<and> le \<noteq> Some []
      | (Panics, s') \<Rightarrow> False)"
proof -
  let ?w0 = "fresh_world (\<lambda>k. None)"
  have p: "pipe_error ?w0 (pipe_calls ?w0) = None" "pipe_error ?w0 (Suc (pipe_calls ?w0)) = None"
    by (simp_all add: fresh_world_def)
  have f: "no_output_fn (snd (capture io_Copy os_Stderr (snd (capture io_Copy os_Stdout ?w0))))
      = (Returns None, snd (capture io_Copy os_Stderr (snd (capture io_Copy os_Stdout ?w0))))"
    by (simp add: no_output_fn_def)
  obtain res s' where r: "Output io_Copy no_output_fn ?w0 = (res, s')" by (metis surj_pair)
  with Output_io_Copy_made [where fn = no_output_fn, OF p f]
  obtain lo le joined where res: "res = Returns (lo, le, joined)" by simp
  have "strings [nl] = None \<or> (\<exists>x xs. strings [nl] = Some (x # xs))"
    using lines_nil_or_nonempty [of "[nl]" io_Copy no_output_fn ?w0] by blast
  moreover have "strings [nl] = Some [[]]" by code_simp
  moreover have "lo \<noteq> Some [] \<and> le \<noteq> Some []"
    using lines_nil_or_nonempty [of "[nl]" io_Copy no_output_fn ?w0] r res by blast
  ultimately show ?thesis using r res by simp
qed

subsection \<open>Restoration of the handles\<close>

text \<open>
  C5: for every copy function, every function \<^verbatim>\<open>fn\<close> and every state, whether
  \<^verbatim>\<open>fn\<close> returns \<^verbatim>\<open>nil\<close> or an error or panics and whether a copy fails or not, after
  \<^verbatim>\<open>Output\<close> the variables \<^verbatim>\<open>os.Stdout\<close> and \<^verbatim>\<open>os.Stderr\<close> hold the values they
  held before the call, and the last two things that happened are the two deferred
  assignments, to \<^verbatim>\<open>os.Stderr\<close> first and to \<^verbatim>\<open>os.Stdout\<close> second.
\<close>

theorem handles_restored:
  "Stdout (snd (Output copyFn fn s0)) = Stdout s0
   \<and> Stderr (snd (Output copyFn fn s0)) = Stderr s0
   \<and> (\<exists>before. trace (snd (Output copyFn fn s0)) =
          before @ [Assigned os_Stderr (Stderr s0), Assigned os_Stdout (Stdout s0)])"
proof -
  obtain s where "snd (Output copyFn fn s0) =
      restore os_Stdout (Stdout s0) (restore os_Stderr (Stderr s0) s)"
    using Output_world by blast
  then show ?thesis by (simp add: restore_def)
qed

subsection \<open>More facts about capture\<close>


lemma finish_io_Copy_None:
  assumes "finish io_Copy r w s = ((out, None), s')"
  shows "\<exists>p. r = PipeRead p \<and> out = pipe_data s p \<and> pipe_data s' = pipe_data s"
proof (cases r)
  case (PipeRead p)
  with assms show ?thesis by (auto simp: finish_io_Copy_pipe)
qed (use assms in \<open>simp_all add: finish_def io_Copy_def Let_def\<close>)

lemma capture_io_Copy_finish_None:
  assumes c: "capture io_Copy t s = ((rs, fin), s1)"
    and o: "fin s3 = ((out, None), s4)"
  shows "pipe_error s (pipe_calls s) = None \<and> out = pipe_data s3 (pipe_calls s)
     \<and> pipe_data s4 = pipe_data s3 \<and> pipe_data s1 = (pipe_data s)(pipe_calls s := [])"
proof (cases "pipe_error s (pipe_calls s)")
  case None
  from c have fin: "fin = snd (fst (capture io_Copy t s))" and s1: "s1 = snd (capture io_Copy t s)"
    by simp_all
  from fin None have "fin = finish io_Copy (PipeRead (pipe_calls s)) (PipeWrite (pipe_calls s))"
    by (simp add: capture_finish_made)
  with o have "out = pipe_data s3 (pipe_calls s)" and "pipe_data s4 = pipe_data s3"
    by (auto simp: finish_io_Copy_pipe)
  moreover from s1 None have "pipe_data s1 = (pipe_data s)(pipe_calls s := [])"
    by (simp add: capture_made_fields(2))
  ultimately show ?thesis using None by simp
next
  case (Some e)
  from c have "fin = snd (fst (capture io_Copy t s))" by simp
  with Some have "fin = finish io_Copy NilFile NilFile" by (simp add: capture_finish_failed)
  with o have "fst (finish io_Copy NilFile NilFile s3) = (out, None)" by simp
  then show ?thesis by (simp add: finish_io_Copy_nil)
qed

lemma capture_os_Pipe:
  assumes "os_Pipe s = ((r, w, perr), s1)"
  shows "fst (capture copyFn t s) = (restore t (load t s), finish copyFn r w)"
  using assms by (simp add: capture_def Let_def)

lemma capture_failed_load:
  assumes "pipe_error s (pipe_calls s) = Some e"
  shows "load t (snd (capture copyFn t s)) = NilFile"
  using assms by (simp add: capture_failed Let_def load_store)

lemma fresh_world_fields [simp]:
  "Stdout (fresh_world fail) = Fd 1"
  "Stderr (fresh_world fail) = Fd 2"
  "pipe_calls (fresh_world fail) = 0"
  "pipe_error (fresh_world fail) = fail"
  "pipe_data (fresh_world fail) = (\<lambda>p. [])"
  "pipe_closed (fresh_world fail) = (\<lambda>p. False)"
  "trace (fresh_world fail) = []"
  "written (fresh_world fail) = (\<lambda>n. [])"
  by (simp_all add: fresh_world_def)


subsection \<open>Error passthrough\<close>



subsection \<open>A last line without terminator\<close>

text \<open>
  C6: a text that is not empty and does not end with a line terminator keeps its last
  segment: \<^verbatim>\<open>strings\<close> returns all segments of the split, the last of them is not empty,
  and joined by terminators they are the text.  A single line \<open>l\<close> without any
  terminator gives the one-element sequence of \<open>l\<close>.  In the run of the test, where
  \<^verbatim>\<open>fn\<close> writes two terminated lines to stdout and a terminated line and an unterminated
  line to stderr and both pipes can be made, \<^verbatim>\<open>Output\<close> returns the two lines of each
  stream and the join of the error of \<^verbatim>\<open>fn\<close>.
\<close>

theorem unterminated_last_line:
  "(s \<noteq> [] \<and> last s \<noteq> nl \<longrightarrow>
      strings s = Some (Split s nl) \<and> last (Split s nl) \<noteq> [] \<and> Join (Split s nl) nl = s)
   \<and> (l \<noteq> [] \<and> nl \<notin> set l \<longrightarrow> strings l = Some [l])
   \<and> (pipe_error s0 (pipe_calls s0) = None \<and> pipe_error s0 (Suc (pipe_calls s0)) = None \<longrightarrow>
        fst (Output io_Copy (TestCapture_fn fnerr) s0) =
          Returns (Some [''to stdout (1)'', ''to stdout (2)''],
                   Some [''to stderr (1)'', ''to stderr (2)''],
                   Some (joinError [fnerr])))"
proof -
  have a: "s \<noteq> [] \<and> last s \<noteq> nl \<longrightarrow>
      strings s = Some (Split s nl) \<and> last (Split s nl) \<noteq> [] \<and> Join (Split s nl) nl = s"
    by (simp add: strings_eq last_Split Join_Split)
  have b: "l \<noteq> [] \<and> nl \<notin> set l \<longrightarrow> strings l = Some [l]"
    by (simp add: strings_eq Split_no_sep)
  have c: "pipe_error s0 (pipe_calls s0) = None \<and> pipe_error s0 (Suc (pipe_calls s0)) = None \<longrightarrow>
        fst (Output io_Copy (TestCapture_fn fnerr) s0) =
          Returns (Some [''to stdout (1)'', ''to stdout (2)''],
                   Some [''to stderr (1)'', ''to stderr (2)''],
                   Some (joinError [fnerr]))"
    using TestCapture_made [of s0 fnerr] by blast
  from a b c show ?thesis by (intro conjI)
qed

theorem unterminated_last_line_witness:
  "strings [CHR ''a'', nl, CHR ''b''] = Some [''a'', ''b'']
   \<and> strings ''to stderr (2)'' = Some [''to stderr (2)'']
   \<and> fst (Output io_Copy (TestCapture_fn (errorString 7 ''function error''))
            (fresh_world (\<lambda>k. None))) =
       Returns (Some [''to stdout (1)'', ''to stdout (2)''],
                Some [''to stderr (1)'', ''to stderr (2)''],
                Some (joinError [errorString 7 ''function error'']))"
proof -
  let ?w0 = "fresh_world (\<lambda>k. None)"
  have p: "pipe_error ?w0 (pipe_calls ?w0) = None \<and> pipe_error ?w0 (Suc (pipe_calls ?w0)) = None"
    by (simp add: fresh_world_def)
  have h1: "[CHR ''a'', nl, CHR ''b''] \<noteq> [] \<and> last [CHR ''a'', nl, CHR ''b''] \<noteq> nl"
    by (simp add: nl_def)
  have h2: "''to stderr (2)'' \<noteq> [] \<and> nl \<notin> set ''to stderr (2)''"
    by (simp add: nl_def)
  have sp: "Split [CHR ''a'', nl, CHR ''b''] nl = [''a'', ''b'']" by (simp add: nl_def)
  from unterminated_last_line [of "[CHR ''a'', nl, CHR ''b'']" "''to stderr (2)''" ?w0
      "errorString 7 ''function error''"] p h1 h2 sp
  show ?thesis by simp
qed

subsection \<open>The interceptor\<close>

text \<open>
  C8: the finish closure \<^verbatim>\<open>capture\<close> returns closes the write end and returns what
  the copy left in the buffer together with the copy's error.  With \<open>r\<close> and \<open>w\<close> the
  two ends \<^verbatim>\<open>os.Pipe\<close> gave to \<^verbatim>\<open>capture\<close>: when the copy from \<open>r\<close>, run with \<open>w\<close>
  closed, fails with \<open>x\<close> after having written \<open>partial\<close> to the buffer, finish returns
  \<open>partial\<close> and \<open>x\<close>.  Nothing is discarded at this layer.
\<close>

theorem finish_returns_partial_text:
  assumes "capture copyFn t s = ((rs, fin), s')"
    and "os_Pipe s = ((r, w, perr), s1)"
    and "copyFn r (Close w s3) = (partial, Some x)"
  shows "fst (fin s3) = (partial, Some x)"
proof -
  from capture_os_Pipe [OF assms(2), of copyFn t] assms(1) have "fin = finish copyFn r w"
    by simp
  with assms(3) show ?thesis by (simp add: finish_def Let_def)
qed

theorem finish_returns_partial_text_witness:
  "fst (snd (fst (capture (failing_copy (errorString 9 ''copy error'')) os_Stdout
                    (fresh_world (\<lambda>k. None))))
         (Write (PipeWrite 0) ''abc''
            (snd (capture (failing_copy (errorString 9 ''copy error'')) os_Stdout
                    (fresh_world (\<lambda>k. None))))))
   = (''abc'', Some (errorString 9 ''copy error''))"
proof -
  let ?c = "errorString 9 ''copy error''"
  let ?w0 = "fresh_world (\<lambda>k. None)"
  let ?cap = "capture (failing_copy ?c) os_Stdout ?w0"
  let ?s3 = "Write (PipeWrite 0) ''abc'' (snd ?cap)"
  have c: "?cap = ((fst (fst ?cap), snd (fst ?cap)), snd ?cap)" by simp
  have p: "os_Pipe ?w0 = ((PipeRead 0, PipeWrite 0, None), snd (os_Pipe ?w0))"
    by (simp add: os_Pipe_def)
  have ok: "pipe_error ?w0 (pipe_calls ?w0) = None" by simp
  have d: "pipe_data ?s3 0 = ''abc''"
    by (simp add: Write_pipe_data capture_made_fields [OF ok])
  have cp: "failing_copy ?c (PipeRead 0) (Close (PipeWrite 0) ?s3) = (''abc'', Some ?c)"
    using d by (simp add: failing_copy_def io_Copy_def)
  from finish_returns_partial_text [OF c p cp] show ?thesis .
qed

text \<open>
  C10: when \<^verbatim>\<open>os.Pipe\<close> fails with an error \<open>e\<close>, \<^verbatim>\<open>capture\<close> still returns its two
  closures, the restore of the original value and a finish on two \<^verbatim>\<open>nil\<close> files; it has
  assigned the \<^verbatim>\<open>nil\<close> write end to the handle and started the drain on the \<^verbatim>\<open>nil\<close>
  read end.  What it returns does not depend on \<open>e\<close>: the same closures come back for any
  other error \<open>e'\<close>.  The failure shows only later, when finish returns the error of
  reading a \<^verbatim>\<open>nil\<close> file.
\<close>

theorem capture_ignores_pipe_error:
  assumes "pipe_error s (pipe_calls s) = Some e"
  shows "\<exists>s'. capture copyFn t s = ((restore t (load t s), finish copyFn NilFile NilFile), s')
     \<and> load t s' = NilFile
     \<and> trace s' = trace s @ [Assigned t NilFile, Spawned NilFile]
     \<and> fst (capture copyFn t (s\<lparr>pipe_error := (pipe_error s)(pipe_calls s := Some e')\<rparr>))
         = fst (capture copyFn t s)
     \<and> fst (finish io_Copy NilFile NilFile s3) = ([], Some ErrInvalid)"
proof -
  let ?s2 = "store t NilFile (s\<lparr>pipe_calls := pipe_calls s + 1\<rparr>)"
  let ?s' = "?s2\<lparr>trace := trace ?s2 @ [Spawned NilFile]\<rparr>"
  have c: "capture copyFn t s = ((restore t (load t s), finish copyFn NilFile NilFile), ?s')"
    using capture_failed [OF assms, of copyFn t] by (simp add: Let_def)
  have l: "load t ?s' = NilFile" by (simp add: load_store)
  have tr: "trace ?s' = trace s @ [Assigned t NilFile, Spawned NilFile]" by simp
  let ?u = "s\<lparr>pipe_error := (pipe_error s)(pipe_calls s := Some e')\<rparr>"
  have "pipe_error ?u (pipe_calls ?u) = Some e'" by simp
  from capture_failed [OF this, of copyFn t]
  have "fst (capture copyFn t ?u) = (restore t (load t ?u), finish copyFn NilFile NilFile)"
    by simp
  moreover have "load t ?u = load t s" by (cases t) simp_all
  ultimately have ind: "fst (capture copyFn t ?u) = fst (capture copyFn t s)"
    using c by simp
  have fin: "fst (finish io_Copy NilFile NilFile s3) = ([], Some ErrInvalid)"
    by (rule finish_io_Copy_nil)
  from c l tr ind fin show ?thesis by blast
qed

theorem capture_ignores_pipe_error_witness:
  "fst (capture io_Copy os_Stdout (fresh_world (\<lambda>k. Some (errorString 5 ''too many open files''))))
     = (restore os_Stdout (Fd 1), finish io_Copy NilFile NilFile)
   \<and> load os_Stdout (snd (capture io_Copy os_Stdout
         (fresh_world (\<lambda>k. Some (errorString 5 ''too many open files''))))) = NilFile
   \<and> trace (snd (capture io_Copy os_Stdout
         (fresh_world (\<lambda>k. Some (errorString 5 ''too many open files'')))))
       = [Assigned os_Stdout NilFile, Spawned NilFile]"
proof -
  let ?e = "errorString 5 ''too many open files''"
  let ?w0 = "fresh_world (\<lambda>k. Some ?e)"
  have h: "pipe_error ?w0 (pipe_calls ?w0) = Some ?e" by simp
  from capture_ignores_pipe_error [OF h, of io_Copy os_Stdout ?e ?w0]
  obtain s' where "capture io_Copy os_Stdout ?w0 =
       ((restore os_Stdout (load os_Stdout ?w0), finish io_Copy NilFile NilFile), s')"
    and "load os_Stdout s' = NilFile"
    and "trace s' = trace ?w0 @ [Assigned os_Stdout NilFile, Spawned NilFile]"
    by blast
  then show ?thesis by simp
qed

subsection \<open>Facts about the two threads\<close>

lemma at_call_inv: "at_call s \<Longrightarrow> sess_inv s"
  by (simp add: at_call_def sess_inv_def)

lemma step_inv: "step s s' \<Longrightarrow> sess_inv s \<Longrightarrow> sess_inv s'"
  by (induction rule: step.induct) (auto simp: sess_inv_def)

lemma steps_inv: "steps s s' \<Longrightarrow> sess_inv s \<Longrightarrow> sess_inv s'"
  by (induction rule: steps.induct) (auto intro: step_inv)

lemma step_rank: "step s s' \<Longrightarrow> rank s' < rank s"
  by (induction rule: step.induct) (auto simp: rank_def)

lemma progress:
  assumes "sess_inv s" and "fpc s \<noteq> Returned"
  shows "\<exists>s'. step s s'"
proof (cases "fpc s")
  case AtClose
  then show ?thesis by (blast intro: step.Close)
next
  case AtRecvText
  with assms(1) have cl: "\<not> w_open s" and d: "dpc s = AtCopy \<or> dpc s = AtSendText"
    by (simp_all add: sess_inv_def)
  show ?thesis
  proof (cases "dpc s = AtSendText")
    case True
    with AtRecvText show ?thesis by (blast intro: step.Text)
  next
    case False
    with d have c: "dpc s = AtCopy" by simp
    show ?thesis
    proof (cases "read_error s")
      case (Some x)
      with c show ?thesis by (blast intro: step.ReadFails)
    next
      case None
      show ?thesis
      proof (cases "unread s = []")
        case True
        with c None cl show ?thesis by (blast intro: step.Eof)
      next
        case False
        have "unread s = unread s @ []" by simp
        from step.Read [OF c None this False] show ?thesis by blast
      qed
    qed
  qed
next
  case AtRecvErr
  with assms(1) have "dpc s = AtSendErr" by (simp add: sess_inv_def)
  with AtRecvErr show ?thesis by (blast intro: step.Err)
next
  case Returned
  with assms(2) show ?thesis by simp
qed


lemma at_call_run_inv: "at_call s \<Longrightarrow> run_inv s s"
  by (auto simp: at_call_def run_inv_def copied_def copy_result_def)

lemma step_run_inv: "step s s' \<Longrightarrow> sess_inv s \<Longrightarrow> run_inv s0 s \<Longrightarrow> run_inv s0 s'"
proof (induction rule: step.induct)
  case (Close s)
  then show ?case by (auto simp: run_inv_def sess_inv_def)
next
  case (Read s a b)
  then show ?case by (auto simp: run_inv_def sess_inv_def)
next
  case (Eof s)
  then show ?case by (auto simp: run_inv_def sess_inv_def copied_def copy_result_def)
next
  case (ReadFails s x)
  then show ?case by (auto simp: run_inv_def sess_inv_def copied_def copy_result_def)
next
  case (Text s)
  then show ?case by (auto simp: run_inv_def sess_inv_def)
next
  case (Err s)
  then show ?case by (auto simp: run_inv_def sess_inv_def)
qed

lemma steps_run_inv: "steps s0 s \<Longrightarrow> at_call s0 \<Longrightarrow> sess_inv s \<and> run_inv s0 s"
proof (induction rule: steps.induct)
  case (here s)
  then show ?case by (simp add: at_call_inv at_call_run_inv)
next
  case (further s s' s'')
  then show ?case by (blast intro: step_inv step_run_inv)
qed

lemma step_steps: "steps s' s'' \<Longrightarrow> step s s' \<Longrightarrow> steps s s''"
proof (induction rule: steps.induct)
  case (here s')
  have "steps s s" by (rule steps.here)
  from this here show ?case by (rule steps.further)
next
  case (further t t' t'')
  then show ?case by (blast intro: steps.further)
qed

lemma returns: "sess_inv s \<Longrightarrow> \<exists>s'. steps s s' \<and> fpc s' = Returned"
proof (induction "rank s" arbitrary: s rule: less_induct)
  case less
  show ?case
  proof (cases "fpc s = Returned")
    case True
    then show ?thesis by (blast intro: steps.here)
  next
    case False
    with less.prems obtain s1 where s1: "step s s1" using progress by blast
    then have "rank s1 < rank s" and "sess_inv s1"
      using less.prems by (auto intro: step_rank step_inv)
    with less.hyps obtain s' where "steps s1 s'" and "fpc s' = Returned" by blast
    with s1 show ?thesis by (blast intro: step_steps)
  qed
qed

lemma finish_trace: "trace (snd (finish copyFn r w st)) = trace st @ [Closed w, Received r]"
  by (cases w) (simp_all add: finish_def Close_def Let_def case_prod_beta)

subsection \<open>Close, then wait\<close>



text \<open>
  The other order would not do: a caller that waits at the channel while the write end
  is open, with a goroutine reading an empty pipe, is stuck for good.
\<close>

lemma stuck_when_open:
  assumes "fpc s = AtRecvText" and "dpc s = AtCopy" and "w_open s" and "unread s = []"
    and "read_error s = None"
  shows "\<not> step s s'"
proof
  assume "step s s'"
  then show False using assms by cases simp_all
qed

text \<open>
  The one-step \<^const>\<open>finish\<close> returns what every run of the two threads to the return
  delivers, for \<^verbatim>\<open>io.Copy\<close>, for the copy function of the test, and for a \<^verbatim>\<open>nil\<close> read end.
\<close>

lemma finish_agrees_with_threads:
  assumes "fpc s = Returned"
  shows "steps (fresh_session (pipe_data st p) None None) s \<Longrightarrow>
           (got_text s, got_err s) = fst (finish io_Copy (PipeRead p) w st)"
    and "steps (fresh_session (pipe_data st p) None (Some c)) s \<Longrightarrow>
           (got_text s, got_err s) = fst (finish (failing_copy c) (PipeRead p) w st)"
    and "steps (fresh_session [] (Some ErrInvalid) None) s \<Longrightarrow>
           (got_text s, got_err s) = fst (finish io_Copy NilFile w st)"
proof -
  have ac: "\<And>b rerr stb. at_call (fresh_session b rerr stb)"
    by (simp add: at_call_def fresh_session_def)
  {
    assume "steps (fresh_session (pipe_data st p) None None) s"
    from steps_run_inv [OF this ac] assms
    show "(got_text s, got_err s) = fst (finish io_Copy (PipeRead p) w st)"
      by (simp add: run_inv_def copied_def copy_result_def fresh_session_def
          finish_def io_Copy_def Let_def)
  }
  {
    assume "steps (fresh_session (pipe_data st p) None (Some c)) s"
    from steps_run_inv [OF this ac] assms
    show "(got_text s, got_err s) = fst (finish (failing_copy c) (PipeRead p) w st)"
      by (simp add: run_inv_def copied_def copy_result_def fresh_session_def
          finish_def failing_copy_def io_Copy_def Let_def)
  }
  {
    assume "steps (fresh_session [] (Some ErrInvalid) None) s"
    from steps_run_inv [OF this ac] assms
    show "(got_text s, got_err s) = fst (finish io_Copy NilFile w st)"
      by (simp add: run_inv_def copied_def copy_result_def fresh_session_def
          finish_def io_Copy_def Let_def)
  }
qed

end
